theory Spec2Isabelle
  imports Complex_Main "HOL-Library.Word" "HOL-Library.Multiset"
begin

section \<open>The streaming approximate histogram (package stats)\<close>

text \<open>
  The Go type \<^verbatim>\<open>float64\<close> is modelled by \<^typ>\<open>real\<close>: every finite arithmetic step is
  exact, rounding is not modelled, and the type has no NaN and no infinities. The one
  place where the source divides by a value that can be zero without a guard in front
  (\<^verbatim>\<open>CDF\<close>) returns a \<open>float64\<close> result that names the IEEE-754 outcome. The field
  \<^verbatim>\<open>Total uint64\<close> is a 64-bit word, so \<^verbatim>\<open>Total++\<close> and \<^verbatim>\<open>Total += other.Total\<close>
  wrap around; \<^verbatim>\<open>MaxBins int\<close> is an integer that may be zero or negative.
  A runtime panic of the source is a value of type \<open>panic\<close>. \<open>NotFinite\<close> is not a panic
  of the source: it stands for the one step of \<^verbatim>\<open>trim\<close> whose float64 result, a division
  by a zero \<^verbatim>\<open>totalCount\<close>, is NaN or an infinity and has no real value; the model stops
  there. Bins with positive counts never reach it.
\<close>

record Bin =
  Value :: real
  Count :: real

record Histogram =
  Bins :: "Bin list"
  MaxBins :: int
  Total :: "64 word"

datatype panic =
    IndexOutOfRange  \<comment> \<open>\<^verbatim>\<open>h.Bins[minDeltaIndex-1]\<close> with \<^verbatim>\<open>minDeltaIndex == 0\<close>\<close>
  | NotFinite        \<comment> \<open>a merged bin whose \<^verbatim>\<open>totalCount\<close> is zero: its value is NaN or an infinity\<close>
  | NilDereference   \<comment> \<open>a method called through a nil pointer (the connectors, below)\<close>

datatype float64 = Finite real | PosInf | NegInf | NaN

text \<open>\<^verbatim>\<open>x / y\<close> on float64 where \<open>y\<close> is a non-negative value that may be \<open>+0\<close>.\<close>

definition fdiv :: "real \<Rightarrow> real \<Rightarrow> float64" where
  "fdiv x y =
     (if y = 0 then (if x = 0 then NaN else if 0 < x then PosInf else NegInf)
      else Finite (x / y))"

definition NewHistogram :: "int \<Rightarrow> Histogram" where
  "NewHistogram n = \<lparr>Bins = [], MaxBins = n, Total = 0\<rparr>"

definition Scale :: "real \<Rightarrow> Histogram \<Rightarrow> Histogram" where
  "Scale s h = h\<lparr>Bins := map (\<lambda>b. b\<lparr>Value := Value b * s\<rparr>) (Bins h)\<rparr>"

text \<open>
  The inner loop of \<^verbatim>\<open>trim\<close>: \<open>i\<close> runs over the indices of the slice, index 0 is
  skipped by \<^verbatim>\<open>continue\<close>, and the pair (minDelta, minDeltaIndex) starts at (1e99, 0).
\<close>

definition closest :: "Bin list \<Rightarrow> real \<times> nat" where
  "closest bins =
     foldl (\<lambda>(minDelta, minDeltaIndex) i.
              let delta = Value (bins ! i) - Value (bins ! (i - 1))
              in if delta < minDelta then (delta, i) else (minDelta, minDeltaIndex))
       (10 ^ 99, 0) [1..<length bins]"

text \<open>The body of \<^verbatim>\<open>trim\<close> after the search: bins \<open>i - 1\<close> and \<open>i\<close> become one bin.\<close>

definition mergeAt :: "nat \<Rightarrow> Bin list \<Rightarrow> Bin list" where
  "mergeAt i bins =
     (let a = bins ! (i - 1); b = bins ! i;
          totalCount = Count a + Count b;
          mergedbin = \<lparr>Value = (Value a * Count a + Value b * Count b) / totalCount,
                       Count = totalCount\<rparr>
      in take (i - 1) bins @ mergedbin # drop (i + 1) bins)"

lemma closest_step_index:
  "snd (foldl (\<lambda>(minDelta, minDeltaIndex) i.
              let delta = Value (bins ! i) - Value (bins ! (i - 1))
              in if delta < minDelta then (delta, i) else (minDelta, minDeltaIndex)) acc js)
     \<in> insert (snd acc) (set js)"
proof (induction js arbitrary: acc)
  case Nil
  show ?case by simp
next
  case (Cons j js)
  obtain d k where acc: "acc = (d, k)" by (cases acc)
  show ?case
    using Cons.IH [of "(Value (bins ! j) - Value (bins ! (j - 1)), j)"] Cons.IH [of "(d, k)"]
    by (auto simp: acc Let_def)
qed

lemma closest_index: "snd (closest bins) = 0 \<or> (1 \<le> snd (closest bins) \<and> snd (closest bins) < length bins)"
  using closest_step_index [of bins "(10 ^ 99, 0)" "[1..<length bins]"]
  by (auto simp: closest_def)

lemma length_mergeAt: "1 \<le> i \<Longrightarrow> i < length bins \<Longrightarrow> Suc (length (mergeAt i bins)) = length bins"
  by (auto simp: mergeAt_def Let_def min_def)

function trim_loop :: "int \<Rightarrow> Bin list \<Rightarrow> panic + Bin list" where
  "trim_loop maxBins bins =
     (if maxBins < int (length bins) then
        (let minDeltaIndex = snd (closest bins) in
         if minDeltaIndex = 0 then Inl IndexOutOfRange
         else if Count (bins ! (minDeltaIndex - 1)) + Count (bins ! minDeltaIndex) = 0
           then Inl NotFinite
         else trim_loop maxBins (mergeAt minDeltaIndex bins))
      else Inr bins)"
  by pat_completeness auto
termination
proof (relation "measure (\<lambda>(maxBins, bins). length bins)")
  show "wf (measure (\<lambda>(maxBins :: int, bins :: Bin list). length bins))" by simp
next
  fix maxBins :: int and bins :: "Bin list" and x :: nat
  assume "x = snd (closest bins)" and "x \<noteq> 0"
  then have "1 \<le> x \<and> x < length bins"
    using closest_index [of bins] by auto
  then have "Suc (length (mergeAt x bins)) = length bins"
    by (simp add: length_mergeAt)
  then show "((maxBins, mergeAt x bins), (maxBins, bins)) \<in> measure (\<lambda>(maxBins, bins). length bins)"
    by simp
qed

declare trim_loop.simps [simp del]

definition trim :: "Histogram \<Rightarrow> panic + Histogram" where
  "trim h = (case trim_loop (MaxBins h) (Bins h) of
               Inl e \<Rightarrow> Inl e
             | Inr bins \<Rightarrow> Inr (h\<lparr>Bins := bins\<rparr>))"

text \<open>
  The loop of \<^verbatim>\<open>Add\<close>: the first bin whose value equals \<open>n\<close> is incremented, or a new
  bin is inserted in front of the first bin whose value is greater, or appended.
\<close>

fun add_bins :: "real \<Rightarrow> Bin list \<Rightarrow> Bin list" where
  "add_bins n [] = [\<lparr>Value = n, Count = 1\<rparr>]"
| "add_bins n (b # bs) =
     (if Value b = n then b\<lparr>Count := Count b + 1\<rparr> # bs
      else if n < Value b then \<lparr>Value = n, Count = 1\<rparr> # b # bs
      else b # add_bins n bs)"

text \<open>\<^verbatim>\<open>defer h.trim()\<close> runs on every return path of \<^verbatim>\<open>Add\<close>.\<close>

definition Add :: "real \<Rightarrow> Histogram \<Rightarrow> panic + Histogram" where
  "Add n h = trim (h\<lparr>Total := Total h + 1, Bins := add_bins n (Bins h)\<rparr>)"

text \<open>
  \<^verbatim>\<open>sort.Sort\<close> is modelled by the insertion sort \<^const>\<open>sort_key\<close>; the source's sort
  is not stable, and the properties proved below use only that the result is a
  permutation sorted by value.
\<close>

definition MergeWith :: "Histogram \<Rightarrow> Histogram \<Rightarrow> panic + Histogram" where
  "MergeWith h other =
     trim (h\<lparr>Total := Total h + Total other,
              Bins := sort_key Value (Bins h @ Bins other)\<rparr>)"



definition CDF :: "real \<Rightarrow> Histogram \<Rightarrow> float64" where
  "CDF x h =
     fdiv (foldl (\<lambda>cnt b. if Value b \<le> x then cnt + Count b else cnt) 0 (Bins h))
          (real (unat (Total h)))"

definition Mean :: "Histogram \<Rightarrow> real" where
  "Mean h =
     (if Total h = 0 then 0
      else foldl (\<lambda>acc b. acc + Value b * Count b) 0 (Bins h) / real (unat (Total h)))"

definition Variance :: "Histogram \<Rightarrow> real" where
  "Variance h =
     (if Total h = 0 then 0
      else (let mean = Mean h in
            foldl (\<lambda>acc b. acc + Count b * (Value b - mean) * (Value b - mean)) 0 (Bins h)
              / real (unat (Total h))))"

subsection \<open>Facts about the loops\<close>

text \<open>The sum of the \<^verbatim>\<open>Count\<close> fields of a slice of bins.\<close>

definition count_sum :: "Bin list \<Rightarrow> real" where
  "count_sum bins = sum_list (map Count bins)"





lemma bins_split_at:
  assumes "1 \<le> i" and "i < length bins"
  shows "\<exists>xs a b ys. bins = xs @ a # b # ys \<and> i = Suc (length xs)"
proof -
  from assms obtain k where k: "i = Suc k" by (cases i) auto
  have "bins = take k bins @ bins ! k # bins ! Suc k # drop (Suc (Suc k)) bins"
    using assms k by (simp add: Cons_nth_drop_Suc)
  moreover have "i = Suc (length (take k bins))"
    using assms k by simp
  ultimately show ?thesis by blast
qed

lemma mergeAt_split:
  "mergeAt (Suc (length xs)) (xs @ a # b # ys) =
     xs @ \<lparr>Value = (Value a * Count a + Value b * Count b) / (Count a + Count b),
           Count = Count a + Count b\<rparr> # ys"
  by (simp add: mergeAt_def Let_def nth_append)

lemma trim_loop_invariant:
  assumes step: "\<And>xs a b ys. Count a + Count b \<noteq> 0 \<Longrightarrow> P (xs @ a # b # ys) \<Longrightarrow>
      P (xs @ \<lparr>Value = (Value a * Count a + Value b * Count b) / (Count a + Count b),
                Count = Count a + Count b\<rparr> # ys)"
  shows "trim_loop m bins = Inr bs \<Longrightarrow> P bins \<Longrightarrow> P bs"
proof (induction m bins rule: trim_loop.induct)
  case (1 maxBins bins)
  show ?case
  proof (cases "maxBins < int (length bins)")
    case False
    with "1.prems" show ?thesis by (simp add: trim_loop.simps [of maxBins bins])
  next
    case True
    define i where "i = snd (closest bins)"
    from True "1.prems"(1) have nz: "i \<noteq> 0"
      and cnz: "Count (bins ! (i - 1)) + Count (bins ! i) \<noteq> 0"
      and rec: "trim_loop maxBins (mergeAt i bins) = Inr bs"
      by (auto simp: trim_loop.simps [of maxBins bins] i_def Let_def split: if_splits)
    from nz closest_index [of bins] have "1 \<le> i" "i < length bins"
      by (auto simp: i_def)
    then obtain xs a b ys where split: "bins = xs @ a # b # ys" "i = Suc (length xs)"
      using bins_split_at by blast
    have "P (mergeAt i bins)"
      using step [of a b xs ys] cnz "1.prems"(2)
      by (simp add: split mergeAt_split nth_append)
    then show ?thesis
      using "1.IH" [OF True i_def nz cnz rec] by simp
  qed
qed

lemma trim_loop_length: "trim_loop m bins = Inr bs \<Longrightarrow> int (length bs) \<le> m"
proof (induction m bins rule: trim_loop.induct)
  case (1 maxBins bins)
  show ?case
  proof (cases "maxBins < int (length bins)")
    case False
    with "1.prems" show ?thesis by (simp add: trim_loop.simps [of maxBins bins])
  next
    case True
    with "1.prems" "1.IH" show ?thesis
      by (auto simp: trim_loop.simps [of maxBins bins] Let_def split: if_splits)
  qed
qed

definition positive_counts :: "Bin list \<Rightarrow> bool" where
  "positive_counts bins = list_all (\<lambda>b. 0 < Count b) bins"

definition sorted_bins :: "Bin list \<Rightarrow> bool" where
  "sorted_bins bins = sorted (map Value bins)"

text \<open>A histogram whose bins hold positive counts that add up to its total.\<close>

definition consistent :: "Histogram \<Rightarrow> bool" where
  "consistent h \<longleftrightarrow>
     positive_counts (Bins h) \<and> count_sum (Bins h) = real (unat (Total h))"

lemma weighted_mean_between:
  fixes va vb ca cb :: real
  assumes "0 < ca" "0 < cb" "va \<le> vb"
  shows "va \<le> (va * ca + vb * cb) / (ca + cb)" "(va * ca + vb * cb) / (ca + cb) \<le> vb"
proof -
  have pos: "0 < ca + cb" using assms by simp
  have "va * (ca + cb) \<le> va * ca + vb * cb"
    using assms by (simp add: distrib_left mult_right_mono)
  then show "va \<le> (va * ca + vb * cb) / (ca + cb)"
    using pos by (simp add: pos_le_divide_eq)
  have "va * ca + vb * cb \<le> vb * (ca + cb)"
    using assms by (simp add: distrib_left mult_right_mono)
  then show "(va * ca + vb * cb) / (ca + cb) \<le> vb"
    using pos by (simp add: pos_divide_le_eq)
qed

lemma merge_step_sorted:
  assumes "sorted_bins (xs @ a # b # ys) \<and> positive_counts (xs @ a # b # ys)"
  shows "sorted_bins (xs @ \<lparr>Value = (Value a * Count a + Value b * Count b) / (Count a + Count b),
                Count = Count a + Count b\<rparr> # ys)
       \<and> positive_counts (xs @ \<lparr>Value = (Value a * Count a + Value b * Count b) / (Count a + Count b),
                Count = Count a + Count b\<rparr> # ys)"
proof -
  let ?m = "(Value a * Count a + Value b * Count b) / (Count a + Count b)"
  from assms have ca: "0 < Count a" and cb: "0 < Count b" and ab: "Value a \<le> Value b"
    by (auto simp: positive_counts_def sorted_bins_def sorted_append)
  note m = weighted_mean_between [OF ca cb ab]
  from assms have xs: "sorted (map Value xs)" and ys: "sorted (map Value ys)"
    and xa: "\<forall>x\<in>set xs. Value x \<le> Value a" and xy: "\<forall>x\<in>set xs. \<forall>y\<in>set ys. Value x \<le> Value y"
    and byy: "\<forall>y\<in>set ys. Value b \<le> Value y"
    by (auto simp: sorted_bins_def sorted_append)
  have "sorted (map Value xs @ ?m # map Value ys)"
    using xs ys xa xy byy m by (fastforce simp: sorted_append)
  moreover have "positive_counts (xs @ \<lparr>Value = ?m, Count = Count a + Count b\<rparr> # ys)"
    using assms ca cb by (simp add: positive_counts_def)
  ultimately show ?thesis by (simp add: sorted_bins_def)
qed


lemma Value_add_bins: "Value ` set (add_bins n bs) \<subseteq> insert n (Value ` set bs)"
  by (induction bs) auto

lemma add_bins_sorted: "sorted_bins bs \<Longrightarrow> sorted_bins (add_bins n bs)"
proof (induction bs)
  case Nil
  show ?case by (simp add: sorted_bins_def)
next
  case (Cons b bs)
  then have IH: "sorted (map Value (add_bins n bs))" and
    le: "\<forall>y\<in>set bs. Value b \<le> Value y"
    by (auto simp: sorted_bins_def)
  have "\<forall>y\<in>set (add_bins n bs). Value b \<le> Value y" if "Value b < n"
    using Value_add_bins [of n bs] le that by fastforce
  then show ?case
    using Cons.prems IH by (auto simp: sorted_bins_def)
qed

lemma add_bins_positive: "positive_counts bs \<Longrightarrow> positive_counts (add_bins n bs)"
  by (induction bs) (auto simp: positive_counts_def)





subsection \<open>Quantile\<close>

lemma count_sum_nonneg: "positive_counts bins \<Longrightarrow> 0 \<le> count_sum bins"
  by (induction bins) (auto simp: positive_counts_def count_sum_def)


lemma positive_count_sum_zero: "positive_counts bins \<Longrightarrow> count_sum bins = 0 \<Longrightarrow> bins = []"
proof (cases bins)
  case Nil
  then show ?thesis by simp
next
  case (Cons b bs)
  assume "positive_counts bins" "count_sum bins = 0"
  with Cons count_sum_nonneg [of bs] show ?thesis
    by (auto simp: count_sum_def positive_counts_def)
qed




subsection \<open>Sortedness of the bins\<close>








subsection \<open>The bound on the number of bins\<close>

lemma trim_length: "trim h = Inr h' \<Longrightarrow> int (length (Bins h')) \<le> MaxBins h'"
  by (auto simp: trim_def split: sum.splits dest: trim_loop_length)

text \<open>
  Claim C6 at the input where the code fails. With \<^verbatim>\<open>NewHistogram(1)\<close>, \<^verbatim>\<open>Add(-1e100)\<close>
  returns a histogram of one bin; \<^verbatim>\<open>Add(1e100)\<close> then appends a second bin, and \<^verbatim>\<open>trim\<close>
  finds no adjacent pair whose delta is below its starting value \<^verbatim>\<open>1e99\<close>, keeps
  \<^verbatim>\<open>minDeltaIndex = 0\<close> and indexes \<^verbatim>\<open>h.Bins[-1]\<close>: a panic, with two bins in a
  histogram of \<^verbatim>\<open>MaxBins = 1\<close>.
\<close>

theorem Add_far_apart_panics:
  "Add (- (10 ^ 100)) (NewHistogram 1)
     = Inr \<lparr>Bins = [\<lparr>Value = - (10 ^ 100), Count = 1\<rparr>], MaxBins = 1, Total = 1\<rparr>
   \<and> add_bins (10 ^ 100) [\<lparr>Value = - (10 ^ 100), Count = 1\<rparr>]
     = [\<lparr>Value = - (10 ^ 100), Count = 1\<rparr>, \<lparr>Value = 10 ^ 100, Count = 1\<rparr>]
   \<and> closest [\<lparr>Value = - (10 ^ 100), Count = 1\<rparr>, \<lparr>Value = 10 ^ 100, Count = 1\<rparr>] = (10 ^ 99, 0)
   \<and> Add (10 ^ 100) \<lparr>Bins = [\<lparr>Value = - (10 ^ 100), Count = 1\<rparr>], MaxBins = 1, Total = 1\<rparr>
     = Inl IndexOutOfRange"
  by (simp add: NewHistogram_def Add_def trim_def trim_loop.simps closest_def mergeAt_def
      Let_def upt_rec)

subsection \<open>The total and the bin counts\<close>

text \<open>
  The histograms that \<^verbatim>\<open>NewHistogram(n)\<close> with \<open>n \<ge> 1\<close> and any sequence of returning
  \<^verbatim>\<open>Add\<close>, \<^verbatim>\<open>MergeWith\<close> (with a histogram built the same way) and \<^verbatim>\<open>Scale\<close> calls
  can produce.
\<close>

inductive reachable :: "Histogram \<Rightarrow> bool" where
  new: "1 \<le> n \<Longrightarrow> reachable (NewHistogram n)"
| add: "reachable h \<Longrightarrow> Add v h = Inr h' \<Longrightarrow> reachable h'"
| merge: "reachable h \<Longrightarrow> reachable other \<Longrightarrow> MergeWith h other = Inr h' \<Longrightarrow> reachable h'"
| scale: "reachable h \<Longrightarrow> reachable (Scale s h)"

text \<open>\<open>k\<close> times in a row, merge a histogram with a histogram of the same contents.\<close>

fun merge_self_times :: "nat \<Rightarrow> Histogram \<Rightarrow> panic + Histogram" where
  "merge_self_times 0 h = Inr h"
| "merge_self_times (Suc k) h =
     (case MergeWith h h of Inl e \<Rightarrow> Inl e | Inr h' \<Rightarrow> merge_self_times k h')"








lemma MergeWith_self_single:
  assumes "0 < c"
  shows "MergeWith \<lparr>Bins = [\<lparr>Value = 0, Count = c\<rparr>], MaxBins = 1, Total = t\<rparr>
                   \<lparr>Bins = [\<lparr>Value = 0, Count = c\<rparr>], MaxBins = 1, Total = t\<rparr>
         = Inr \<lparr>Bins = [\<lparr>Value = 0, Count = 2 * c\<rparr>], MaxBins = 1, Total = 2 * t\<rparr>"
  using assms
  by (simp add: MergeWith_def trim_def trim_loop.simps closest_def mergeAt_def Let_def upt_rec)

lemma merge_self_times_single:
  "0 < c \<Longrightarrow>
   merge_self_times k \<lparr>Bins = [\<lparr>Value = 0, Count = c\<rparr>], MaxBins = 1, Total = t\<rparr>
     = Inr \<lparr>Bins = [\<lparr>Value = 0, Count = 2 ^ k * c\<rparr>], MaxBins = 1, Total = 2 ^ k * t\<rparr>"
proof (induction k arbitrary: c t)
  case 0
  show ?case by simp
next
  case (Suc k)
  from Suc.prems have "0 < 2 * c" by simp
  from Suc.IH [OF this, of "2 * t"] show ?case
    by (simp add: MergeWith_self_single [OF Suc.prems] mult.assoc mult.left_commute)
qed

lemma reachable_merge_self_times:
  "reachable h \<Longrightarrow> merge_self_times k h = Inr h' \<Longrightarrow> reachable h'"
proof (induction k arbitrary: h)
  case 0
  then show ?case by simp
next
  case (Suc k)
  then obtain h1 where h1: "MergeWith h h = Inr h1" and rest: "merge_self_times k h1 = Inr h'"
    by (auto split: sum.splits)
  from reachable.merge [OF Suc.prems(1) Suc.prems(1) h1] have "reachable h1" .
  from Suc.IH [OF this rest] show ?case .
qed


lemma trim_positive:
  assumes "trim h = Inr h'" and "positive_counts (Bins h)"
  shows "positive_counts (Bins h')"
proof -
  from assms(1) obtain bs where bs: "trim_loop (MaxBins h) (Bins h) = Inr bs" and h': "h' = h\<lparr>Bins := bs\<rparr>"
    by (auto simp: trim_def split: sum.splits)
  have "positive_counts bs"
    using trim_loop_invariant [where P = positive_counts, OF _ bs] assms(2)
    by (simp add: positive_counts_def)
  with h' show ?thesis by simp
qed

text \<open>
  Every reachable histogram holds positive counts only, so the sum of two counts is never
  zero and \<^verbatim>\<open>trim\<close> never divides by zero on a reachable histogram.
\<close>

lemma reachable_positive: "reachable h \<Longrightarrow> positive_counts (Bins h)"
proof (induction rule: reachable.induct)
  case (new n)
  show ?case by (simp add: NewHistogram_def positive_counts_def)
next
  case (add h v h')
  from add.hyps(2) show ?case
    unfolding Add_def by (rule trim_positive) (simp add: add_bins_positive add.IH)
next
  case (merge h other h')
  from merge.hyps(3) show ?case
    unfolding MergeWith_def
    by (rule trim_positive) (use merge.IH in \<open>auto simp: positive_counts_def list_all_iff\<close>)
next
  case (scale h s)
  then show ?case by (simp add: Scale_def positive_counts_def list_all_iff)
qed

subsection \<open>The zero total\<close>

lemma foldl_CDF_count:
  "foldl (\<lambda>cnt b. if Value b \<le> x then cnt + Count b else cnt) a bins
     = a + count_sum (filter (\<lambda>b. Value b \<le> x) bins)"
  by (induction bins arbitrary: a) (simp_all add: count_sum_def)

text \<open>
  Claim C9, as the code has it. For a histogram whose \<^verbatim>\<open>Total\<close> is zero, \<^verbatim>\<open>Mean()\<close> and
  \<^verbatim>\<open>Variance()\<close> return 0 through their guard, and \<^verbatim>\<open>CDF(x)\<close> divides by the zero total
  without a guard: the result is NaN when the counts of the bins up to \<open>x\<close> add up to
  zero, which is so for every \<open>x\<close> when the histogram holds no samples (positive counts
  that add up to \<^verbatim>\<open>Total\<close>), and it is \<open>+Inf\<close> when they add up to a positive number.
\<close>

theorem zero_total_Mean_Variance_CDF:
  assumes "Total h = 0"
  shows "Mean h = 0 \<and> Variance h = 0
       \<and> (consistent h \<longrightarrow> CDF x h = NaN)
       \<and> (count_sum (filter (\<lambda>b. Value b \<le> x) (Bins h)) = 0 \<longrightarrow> CDF x h = NaN)
       \<and> (0 < count_sum (filter (\<lambda>b. Value b \<le> x) (Bins h)) \<longrightarrow> CDF x h = PosInf)"
proof -
  have "Bins h = []" if "consistent h"
    using that assms positive_count_sum_zero [of "Bins h"] by (simp add: consistent_def)
  then have "CDF x h = NaN" if "consistent h"
    using that assms by (simp add: CDF_def fdiv_def)
  with assms show ?thesis
    by (simp add: Mean_def Variance_def CDF_def fdiv_def foldl_CDF_count)
qed

text \<open>
  The hypothesis of C9 at the new histogram and at the histogram whose total has wrapped
  around to zero.
\<close>

theorem zero_total_Mean_Variance_CDF_witness:
  "Total (NewHistogram 160) = 0 \<and> consistent (NewHistogram 160)
   \<and> Mean (NewHistogram 160) = 0 \<and> Variance (NewHistogram 160) = 0
   \<and> CDF 18 (NewHistogram 160) = NaN
   \<and> Total \<lparr>Bins = [\<lparr>Value = 0, Count = 2 ^ 64\<rparr>], MaxBins = 1, Total = 0 :: 64 word\<rparr> = 0
   \<and> Mean \<lparr>Bins = [\<lparr>Value = 0, Count = 2 ^ 64\<rparr>], MaxBins = 1, Total = 0\<rparr> = 0
   \<and> 0 < count_sum (filter (\<lambda>b. Value b \<le> 18) [\<lparr>Value = 0, Count = 2 ^ 64\<rparr>])"
proof -
  have t: "Total (NewHistogram 160) = 0" by (simp add: NewHistogram_def)
  have c: "consistent (NewHistogram 160)"
    by (simp add: NewHistogram_def consistent_def positive_counts_def count_sum_def)
  have w: "Total \<lparr>Bins = [\<lparr>Value = 0, Count = 2 ^ 64\<rparr>], MaxBins = 1, Total = 0 :: 64 word\<rparr> = 0"
    by simp
  from zero_total_Mean_Variance_CDF [OF t, of 18] zero_total_Mean_Variance_CDF [OF w, of 18] t c
  show ?thesis by (simp add: count_sum_def)
qed

text \<open>
  Claim C9 as stated ("returns NaN for every x") fails for the reachable histogram whose
  \<^verbatim>\<open>uint64\<close> total has wrapped around to zero while its bin holds the count \<open>2^64\<close>:
  \<^verbatim>\<open>CDF(0)\<close> divides \<open>2^64\<close> by zero, which is \<open>+Inf\<close>.
\<close>

theorem CDF_wrapped_total_counterexample:
  "reachable \<lparr>Bins = [\<lparr>Value = 0, Count = 2 ^ 64\<rparr>], MaxBins = 1, Total = 0\<rparr>
   \<and> Total \<lparr>Bins = [\<lparr>Value = 0, Count = 2 ^ 64\<rparr>], MaxBins = 1, Total = 0 :: 64 word\<rparr> = 0
   \<and> CDF 0 \<lparr>Bins = [\<lparr>Value = 0, Count = 2 ^ 64\<rparr>], MaxBins = 1, Total = 0\<rparr> = PosInf
   \<and> CDF 0 \<lparr>Bins = [\<lparr>Value = 0, Count = 2 ^ 64\<rparr>], MaxBins = 1, Total = 0\<rparr> \<noteq> NaN"
proof -
  let ?h1 = "\<lparr>Bins = [\<lparr>Value = 0, Count = 1\<rparr>], MaxBins = 1, Total = 1 :: 64 word\<rparr>"
  let ?hw = "\<lparr>Bins = [\<lparr>Value = 0, Count = 2 ^ 64\<rparr>], MaxBins = 1, Total = 0 :: 64 word\<rparr>"
  have "Add 0 (NewHistogram 1) = Inr ?h1"
    by (simp add: NewHistogram_def Add_def trim_def trim_loop.simps)
  then have r1: "reachable ?h1"
    using reachable.add [OF reachable.new [of 1]] by simp
  have "(2 :: 64 word) ^ 64 = 0" by simp
  then have m: "merge_self_times 64 ?h1 = Inr ?hw"
    using merge_self_times_single [of 1 64 1] by simp
  from reachable_merge_self_times [OF r1 m] have rw: "reachable ?hw" .
  then show ?thesis by (simp add: CDF_def fdiv_def)
qed

subsection \<open>When \<^verbatim>\<open>trim\<close> returns\<close>

text \<open>
  \<^verbatim>\<open>trim\<close> panics only when it finds no adjacent pair whose delta is below \<^verbatim>\<open>1e99\<close>.
  Bins that are sorted, hold positive counts and whose values lie in a window narrower
  than \<^verbatim>\<open>1e99\<close> are trimmed to any bound \<open>MaxBins \<ge> 1\<close> without a panic.
\<close>

definition in_window :: "real \<Rightarrow> real \<Rightarrow> Bin list \<Rightarrow> bool" where
  "in_window lo hi bins \<longleftrightarrow> hi - lo < 10 ^ 99 \<and> list_all (\<lambda>b. lo \<le> Value b \<and> Value b \<le> hi) bins"

lemma closest_finds_pair:
  assumes "2 \<le> length bins" and "in_window lo hi bins"
  shows "snd (closest bins) \<noteq> 0"
proof -
  let ?f = "\<lambda>(minDelta, minDeltaIndex) i.
              let delta = Value (bins ! i) - Value (bins ! (i - 1))
              in if delta < minDelta then (delta, i) else (minDelta, minDeltaIndex)"
  from assms(1) have upt: "[1..<length bins] = 1 # [2..<length bins]"
    using upt_conv_Cons [of 1 "length bins"] by (simp add: numeral_2_eq_2)
  from assms(1) have "0 < length bins" "1 < length bins" by linarith+
  with assms(2) have "lo \<le> Value (bins ! 0)" "Value (bins ! 1) \<le> hi"
    by (simp_all add: in_window_def list_all_length)
  with assms(2) have "Value (bins ! 1) - Value (bins ! 0) < 10 ^ 99"
    by (simp add: in_window_def)
  then have first: "?f (10 ^ 99, 0) 1 = (Value (bins ! 1) - Value (bins ! 0), 1)"
    by simp
  have "snd (foldl ?f (Value (bins ! 1) - Value (bins ! 0), 1) [2..<length bins])
          \<in> insert 1 (set [2..<length bins])"
    using closest_step_index [of bins "(Value (bins ! 1) - Value (bins ! 0), 1)" "[2..<length bins]"]
    by simp
  then have "snd (foldl ?f (Value (bins ! 1) - Value (bins ! 0), 1) [2..<length bins]) \<noteq> 0"
    by auto
  then show ?thesis
    unfolding closest_def upt by (simp only: foldl_Cons first) simp
qed

lemma merge_step_window:
  assumes "sorted_bins (xs @ a # b # ys) \<and> positive_counts (xs @ a # b # ys)
            \<and> in_window lo hi (xs @ a # b # ys)"
  shows "in_window lo hi (xs @ \<lparr>Value = (Value a * Count a + Value b * Count b) / (Count a + Count b),
                Count = Count a + Count b\<rparr> # ys)"
proof -
  from assms have ca: "0 < Count a" and cb: "0 < Count b" and ab: "Value a \<le> Value b"
    by (auto simp: positive_counts_def sorted_bins_def sorted_append)
  note m = weighted_mean_between [OF ca cb ab]
  from assms m show ?thesis
    by (auto simp: in_window_def)
qed

lemma trim_loop_returns:
  "1 \<le> m \<Longrightarrow> sorted_bins bins \<Longrightarrow> positive_counts bins \<Longrightarrow> in_window lo hi bins \<Longrightarrow>
     \<exists>bs. trim_loop m bins = Inr bs"
proof (induction m bins rule: trim_loop.induct)
  case (1 maxBins bins)
  show ?case
  proof (cases "maxBins < int (length bins)")
    case False
    then show ?thesis by (simp add: trim_loop.simps [of maxBins bins])
  next
    case True
    define i where "i = snd (closest bins)"
    from True "1.prems"(1) have "2 \<le> length bins" by simp
    from closest_finds_pair [OF this "1.prems"(4)] have nz: "i \<noteq> 0"
      by (simp add: i_def)
    with closest_index [of bins] have "1 \<le> i" "i < length bins"
      by (auto simp: i_def)
    then obtain xs a b ys where split: "bins = xs @ a # b # ys" "i = Suc (length xs)"
      using bins_split_at by blast
    from "1.prems"(3) have "0 < Count a + Count b"
      by (simp add: split positive_counts_def)
    then have cnz: "Count (bins ! (i - 1)) + Count (bins ! i) \<noteq> 0"
      by (simp add: split nth_append)
    have all: "sorted_bins bins \<and> positive_counts bins \<and> in_window lo hi bins"
      using "1.prems" by simp
    have "sorted_bins (mergeAt i bins) \<and> positive_counts (mergeAt i bins)"
      using merge_step_sorted [of xs a b ys] all by (simp add: split mergeAt_split)
    moreover have "in_window lo hi (mergeAt i bins)"
      using merge_step_window [of xs a b ys lo hi] all by (simp add: split mergeAt_split)
    ultimately have "\<exists>bs. trim_loop maxBins (mergeAt i bins) = Inr bs"
      using "1.IH" [OF True i_def nz cnz "1.prems"(1)] by simp
    then show ?thesis
      using True nz cnz by (simp add: trim_loop.simps [of maxBins bins] i_def Let_def)
  qed
qed

lemma in_window_add_bins:
  "in_window lo hi bins \<Longrightarrow> lo \<le> v \<Longrightarrow> v \<le> hi \<Longrightarrow> in_window lo hi (add_bins v bins)"
  by (induction bins) (auto simp: in_window_def)

lemma Add_returns:
  assumes "1 \<le> MaxBins h" and "sorted_bins (Bins h)" and "positive_counts (Bins h)"
    and "in_window lo hi (Bins h)" and "lo \<le> v" and "v \<le> hi"
  shows "\<exists>h'. Add v h = Inr h'"
proof -
  have "\<exists>bs. trim_loop (MaxBins h) (add_bins v (Bins h)) = Inr bs"
    using assms
    by (intro trim_loop_returns [where lo = lo and hi = hi])
       (simp_all add: add_bins_sorted add_bins_positive in_window_add_bins)
  then show ?thesis by (auto simp: Add_def trim_def)
qed

lemma MergeWith_returns:
  assumes "1 \<le> MaxBins h" and "positive_counts (Bins h)" and "positive_counts (Bins other)"
    and "in_window lo hi (Bins h)" and "in_window lo hi (Bins other)"
  shows "\<exists>h'. MergeWith h other = Inr h'"
proof -
  have "\<exists>bs. trim_loop (MaxBins h) (sort_key Value (Bins h @ Bins other)) = Inr bs"
    using assms
    by (intro trim_loop_returns [where lo = lo and hi = hi])
       (auto simp: sorted_bins_def positive_counts_def in_window_def list_all_iff)
  then show ?thesis by (auto simp: MergeWith_def trim_def)
qed

section \<open>The connectors (package core)\<close>

text \<open>
  A connector talks to the MQ client library, to NATS and STAN, to the logger and to its
  statistics record. Each such call is an event; a connector method returns its result,
  the connector after the call and the events in the order the method makes them. What an
  outside call returns (an error or none) is an argument of the model. A nil pointer is
  \<open>None\<close>.
\<close>

type_synonym byte = "8 word"
type_synonym bytes = "byte list"
type_synonym error = string
type_synonym handle = nat

datatype level = Trace | Notice

text \<open>
  Option words of the MQ library are sums of distinct bits; a word is modelled by the set
  of the options it holds, so \<^verbatim>\<open>|=\<close> is a union.
\<close>

datatype gmo_option = MQGMO_SYNCPOINT | MQGMO_WAIT | MQGMO_FAIL_IF_QUIESCING
datatype pmo_option = MQPMO_NO_SYNCPOINT | MQPMO_SYNCPOINT
datatype open_option = MQOO_INPUT_SHARED | MQOO_OUTPUT
datatype ctl_operation = MQOP_START | MQOP_STOP

datatype event =
    Log level
  | StatsAddConnect
  | StatsAddDisconnect
  | StatsAddMessageIn int
  | StatsAddMessageOut int
  | StatsAddRequestTime
  | ConnectToQueueManager
  | QMgrOpen open_option string
  | ObjectCB_Register "gmo_option set"
  | QMgrCtl ctl_operation
  | MQToNATSMessage bool
  | NATSToMQMessage bool
  | NATSSubscribe string
  | StanPublish string bytes
  | QMgrCmit
  | QMgrBack
  | QueuePut "pmo_option set" bytes
  | QueueClose handle
  | QMgrDisc handle
  | SubUnsubscribe handle
  | ShutdownCallback handle
  | BridgeConnectorError

text \<open>The calls on an MQ object, a queue manager, a subscription or a STAN connection.\<close>

fun handle_operation :: "event \<Rightarrow> bool" where
  "handle_operation (Log l) = False"
| "handle_operation StatsAddConnect = False"
| "handle_operation StatsAddDisconnect = False"
| "handle_operation (StatsAddMessageIn n) = False"
| "handle_operation (StatsAddMessageOut n) = False"
| "handle_operation StatsAddRequestTime = False"
| "handle_operation BridgeConnectorError = False"
| "handle_operation (MQToNATSMessage f) = False"
| "handle_operation (NATSToMQMessage f) = False"
| "handle_operation e = True"

record ConnectorConfig =
  Subject :: string
  Queue :: string
  Channel :: string
  ExcludeHeaders :: bool

text \<open>
  Modelled from the spec: the statistics record and its \<^verbatim>\<open>Add...\<close> methods are not in the
  sources. The spec lists a connect count, a disconnect count, message-in and message-out
  counts and byte totals; each method adds to its counters. The width of the counters is
  not given, they are unbounded integers here. \<^verbatim>\<open>AddRequestTime\<close> feeds the latency
  histogram, which this record leaves out, as it leaves out the name, the id and the last
  error; so the assignment \<^verbatim>\<open>mq.stats.Name = mq.String()\<close> of \<^verbatim>\<open>Start\<close> has no
  counterpart below.
\<close>

record ConnectorStats =
  Connects :: int
  Disconnects :: int
  MessagesIn :: int
  BytesIn :: int
  MessagesOut :: int
  BytesOut :: int

definition NewConnectorStats :: ConnectorStats where
  "NewConnectorStats = \<lparr>Connects = 0, Disconnects = 0, MessagesIn = 0, BytesIn = 0,
                         MessagesOut = 0, BytesOut = 0\<rparr>"

definition AddConnect :: "ConnectorStats \<Rightarrow> ConnectorStats" where
  "AddConnect st = st\<lparr>Connects := Connects st + 1\<rparr>"

definition AddDisconnect :: "ConnectorStats \<Rightarrow> ConnectorStats" where
  "AddDisconnect st = st\<lparr>Disconnects := Disconnects st + 1\<rparr>"

definition AddMessageIn :: "int \<Rightarrow> ConnectorStats \<Rightarrow> ConnectorStats" where
  "AddMessageIn n st = st\<lparr>MessagesIn := MessagesIn st + 1, BytesIn := BytesIn st + n\<rparr>"

definition AddMessageOut :: "int \<Rightarrow> ConnectorStats \<Rightarrow> ConnectorStats" where
  "AddMessageOut n st = st\<lparr>MessagesOut := MessagesOut st + 1, BytesOut := BytesOut st + n\<rparr>"

text \<open>
  The fields the connectors share: the configuration, the queue manager, the queue object
  and the statistics. \<^verbatim>\<open>NATS2QueueConnector\<close> adds its subscription,
  \<^verbatim>\<open>Queue2NATSConnector\<close> its listener's shutdown callback, \<^verbatim>\<open>Queue2STANConnector\<close> its
  control options.
\<close>

record Connector =
  config :: ConnectorConfig
  qMgr :: "handle option"
  queue :: "handle option"
  stats :: ConnectorStats

record NATS2QueueConnector = Connector +
  sub :: "handle option"

record Queue2NATSConnector = Connector +
  shutdownCB :: "handle option"

record Queue2STANConnector = Connector +
  ctlo :: "handle option"

definition NewNATS2QueueConnector :: "ConnectorConfig \<Rightarrow> NATS2QueueConnector" where
  "NewNATS2QueueConnector c =
     \<lparr>config = c, qMgr = None, queue = None, stats = NewConnectorStats, sub = None\<rparr>"

definition NewQueue2NATSConnector :: "ConnectorConfig \<Rightarrow> Queue2NATSConnector" where
  "NewQueue2NATSConnector c =
     \<lparr>config = c, qMgr = None, queue = None, stats = NewConnectorStats, shutdownCB = None\<rparr>"


subsection \<open>Shutdown\<close>

text \<open>What the outside calls of one \<^verbatim>\<open>Shutdown\<close> return.\<close>

record shutdown_results =
  shutdownCB_result :: "error option"
  Close_result :: "error option"
  Disc_result :: "error option"

text \<open>\<^verbatim>\<open>NATS2QueueConnector.Shutdown\<close> (server/core/nats2queue.go).\<close>

definition NATS2Queue_Shutdown ::
  "shutdown_results \<Rightarrow> NATS2QueueConnector \<Rightarrow> error option \<times> NATS2QueueConnector \<times> event list" where
  "NATS2Queue_Shutdown r mq =
     (let mq1 = mq\<lparr>stats := AddDisconnect (stats mq)\<rparr>;
          tr1 = [StatsAddDisconnect, Log Notice];
          queue' = queue mq1;
          mq2 = mq1\<lparr>queue := None\<rparr>;
          (err, tr2) = (case queue' of
                          None \<Rightarrow> (None, tr1)
                        | Some q \<Rightarrow> (Close_result r, tr1 @ [QueueClose q]));
          (mq3, tr3) = (case qMgr mq2 of
                          None \<Rightarrow> (mq2, tr2)
                        | Some m \<Rightarrow> (mq2\<lparr>qMgr := None\<rparr>, tr2 @ [QMgrDisc m, Log Trace]));
          (mq4, tr4) = (case sub mq3 of
                          None \<Rightarrow> (mq3, tr3)
                        | Some s \<Rightarrow> (mq3\<lparr>sub := None\<rparr>, tr3 @ [SubUnsubscribe s]))
      in (err, mq4, tr4))"

text \<open>
  \<^verbatim>\<open>Queue2NATSConnector.Shutdown\<close> (nats-mq/core/queue2nats.go): every error is logged
  at notice level and the method returns nil.
\<close>

definition log_error :: "error option \<Rightarrow> event list" where
  "log_error e = (case e of None \<Rightarrow> [] | Some err \<Rightarrow> [Log Notice])"

definition Queue2NATS_Shutdown ::
  "shutdown_results \<Rightarrow> Queue2NATSConnector \<Rightarrow> error option \<times> Queue2NATSConnector \<times> event list" where
  "Queue2NATS_Shutdown r mq =
     (let mq1 = mq\<lparr>stats := AddDisconnect (stats mq)\<rparr>;
          tr1 = [StatsAddDisconnect, Log Notice];
          (mq2, tr2) = (case shutdownCB mq1 of
                          None \<Rightarrow> (mq1, tr1)
                        | Some cb \<Rightarrow> (mq1\<lparr>shutdownCB := None\<rparr>,
                                      tr1 @ [ShutdownCallback cb] @ log_error (shutdownCB_result r)));
          queue' = queue mq2;
          mq3 = mq2\<lparr>queue := None\<rparr>;
          tr3 = (case queue' of
                   None \<Rightarrow> tr2
                 | Some q \<Rightarrow> tr2 @ [Log Notice, QueueClose q] @ log_error (Close_result r));
          (mq4, tr4) = (case qMgr mq3 of
                          None \<Rightarrow> (mq3, tr3)
                        | Some m \<Rightarrow> (mq3\<lparr>qMgr := None\<rparr>,
                                     tr3 @ [Log Notice, QMgrDisc m] @ log_error (Disc_result r)
                                         @ [Log Trace]))
      in (None, mq4, tr4))"

fun closes_queue :: "event \<Rightarrow> bool" where
  "closes_queue (QueueClose q) = True"
| "closes_queue e = False"

lemma filter_log_error [simp]:
  "filter handle_operation (log_error e) = []" "filter closes_queue (log_error e) = []"
  "StatsAddDisconnect \<notin> set (log_error e)"
  by (simp_all add: log_error_def split: option.splits)

lemma NATS2Queue_Shutdown_result:
  "NATS2Queue_Shutdown r mq =
     (case queue mq of None \<Rightarrow> None | Some q \<Rightarrow> Close_result r,
      mq\<lparr>stats := AddDisconnect (stats mq), queue := None, qMgr := None, sub := None\<rparr>,
      [StatsAddDisconnect, Log Notice]
        @ (case queue mq of None \<Rightarrow> [] | Some q \<Rightarrow> [QueueClose q])
        @ (case qMgr mq of None \<Rightarrow> [] | Some m \<Rightarrow> [QMgrDisc m, Log Trace])
        @ (case sub mq of None \<Rightarrow> [] | Some s \<Rightarrow> [SubUnsubscribe s]))"
  by (simp add: NATS2Queue_Shutdown_def Let_def split: option.splits)

lemma Queue2NATS_Shutdown_result:
  "Queue2NATS_Shutdown r mq =
     (None,
      mq\<lparr>stats := AddDisconnect (stats mq), queue := None, qMgr := None, shutdownCB := None\<rparr>,
      [StatsAddDisconnect, Log Notice]
        @ (case shutdownCB mq of None \<Rightarrow> []
           | Some cb \<Rightarrow> ShutdownCallback cb # log_error (shutdownCB_result r))
        @ (case queue mq of None \<Rightarrow> []
           | Some q \<Rightarrow> [Log Notice, QueueClose q] @ log_error (Close_result r))
        @ (case qMgr mq of None \<Rightarrow> []
           | Some m \<Rightarrow> [Log Notice, QMgrDisc m] @ log_error (Disc_result r) @ [Log Trace]))"
  by (simp add: Queue2NATS_Shutdown_def Let_def split: option.splits)

text \<open>
  Claim C7, as the code has it. Two \<^verbatim>\<open>Shutdown\<close> calls in succession on a NATS2Queue or
  a Queue2NATS connector: the second call returns nil and performs no handle operation;
  over both calls the queue object is closed exactly once, by the first call, when the
  connector held one (and never otherwise); the first call of Queue2NATS returns nil, and
  the first call of NATS2Queue returns what closing the queue returned (nil when the
  close succeeds or there is no queue).
\<close>

theorem Shutdown_twice:
  assumes "NATS2Queue_Shutdown r1 mq = (e1, mq1, tr1)"
    and "NATS2Queue_Shutdown r2 mq1 = (e2, mq2, tr2)"
    and "Queue2NATS_Shutdown s1 c = (d1, c1, ts1)"
    and "Queue2NATS_Shutdown s2 c1 = (d2, c2, ts2)"
  shows "e1 = (case queue mq of None \<Rightarrow> None | Some q \<Rightarrow> Close_result r1) \<and> e2 = None
       \<and> d1 = None \<and> d2 = None
       \<and> filter handle_operation tr2 = [] \<and> filter handle_operation ts2 = []
       \<and> filter closes_queue tr1 = (case queue mq of None \<Rightarrow> [] | Some q \<Rightarrow> [QueueClose q])
       \<and> filter closes_queue ts1 = (case queue c of None \<Rightarrow> [] | Some q \<Rightarrow> [QueueClose q])
       \<and> filter closes_queue tr2 = [] \<and> filter closes_queue ts2 = []"
proof -
  from assms(1) have e1: "e1 = (case queue mq of None \<Rightarrow> None | Some q \<Rightarrow> Close_result r1)"
    and mq1: "mq1 = mq\<lparr>stats := AddDisconnect (stats mq), queue := None, qMgr := None, sub := None\<rparr>"
    and tr1: "tr1 = [StatsAddDisconnect, Log Notice]
        @ (case queue mq of None \<Rightarrow> [] | Some q \<Rightarrow> [QueueClose q])
        @ (case qMgr mq of None \<Rightarrow> [] | Some m \<Rightarrow> [QMgrDisc m, Log Trace])
        @ (case sub mq of None \<Rightarrow> [] | Some s \<Rightarrow> [SubUnsubscribe s])"
    by (simp_all add: NATS2Queue_Shutdown_result)
  from mq1 have "queue mq1 = None" "qMgr mq1 = None" "sub mq1 = None" by simp_all
  with assms(2) have e2: "e2 = None" and tr2: "tr2 = [StatsAddDisconnect, Log Notice]"
    by (simp_all add: NATS2Queue_Shutdown_result)
  from assms(3) have d1: "d1 = None"
    and c1: "c1 = c\<lparr>stats := AddDisconnect (stats c), queue := None, qMgr := None, shutdownCB := None\<rparr>"
    and ts1: "ts1 = [StatsAddDisconnect, Log Notice]
        @ (case shutdownCB c of None \<Rightarrow> []
           | Some cb \<Rightarrow> ShutdownCallback cb # log_error (shutdownCB_result s1))
        @ (case queue c of None \<Rightarrow> []
           | Some q \<Rightarrow> [Log Notice, QueueClose q] @ log_error (Close_result s1))
        @ (case qMgr c of None \<Rightarrow> []
           | Some m \<Rightarrow> [Log Notice, QMgrDisc m] @ log_error (Disc_result s1) @ [Log Trace])"
    by (simp_all add: Queue2NATS_Shutdown_result)
  from c1 have "queue c1 = None" "qMgr c1 = None" "shutdownCB c1 = None" by simp_all
  with assms(4) have d2: "d2 = None" and ts2: "ts2 = [StatsAddDisconnect, Log Notice]"
    by (simp_all add: Queue2NATS_Shutdown_result)
  have f1: "filter closes_queue tr1 = (case queue mq of None \<Rightarrow> [] | Some q \<Rightarrow> [QueueClose q])"
    unfolding tr1 by (cases "queue mq"; cases "qMgr mq"; cases "sub mq") simp_all
  have f2: "filter closes_queue ts1 = (case queue c of None \<Rightarrow> [] | Some q \<Rightarrow> [QueueClose q])"
    unfolding ts1 by (cases "queue c"; cases "qMgr c"; cases "shutdownCB c") simp_all
  show ?thesis
    using e1 e2 d1 d2 f1 f2 by (simp add: tr2 ts2)
qed

text \<open>
  Connectors as \<^verbatim>\<open>Start\<close> leaves them (queue manager 1, queue object 2, and subscription
  or listener 3), and the results of a \<^verbatim>\<open>Shutdown\<close> whose outside calls all succeed or
  whose \<^verbatim>\<open>queue.Close(0)\<close> fails.
\<close>

definition test_config :: ConnectorConfig where
  "test_config = \<lparr>Subject = ''test'', Queue = ''DEV.QUEUE.1'', Channel = ''test'',
                   ExcludeHeaders = False\<rparr>"

definition started_NATS2Queue :: NATS2QueueConnector where
  "started_NATS2Queue =
     \<lparr>config = test_config, qMgr = Some 1, queue = Some 2,
      stats = AddConnect NewConnectorStats, sub = Some 3\<rparr>"

definition started_Queue2NATS :: Queue2NATSConnector where
  "started_Queue2NATS =
     \<lparr>config = test_config, qMgr = Some 1, queue = Some 2,
      stats = AddConnect NewConnectorStats, shutdownCB = Some 3\<rparr>"

definition all_succeed :: shutdown_results where
  "all_succeed = \<lparr>shutdownCB_result = None, Close_result = None, Disc_result = None\<rparr>"

definition close_fails :: shutdown_results where
  "close_fails = \<lparr>shutdownCB_result = None, Close_result = Some ''MQRC_CONNECTION_BROKEN'',
                   Disc_result = None\<rparr>"

theorem Shutdown_twice_witness:
  "NATS2Queue_Shutdown all_succeed started_NATS2Queue
     = (None,
        started_NATS2Queue\<lparr>stats := AddDisconnect (stats started_NATS2Queue),
                            queue := None, qMgr := None, sub := None\<rparr>,
        [StatsAddDisconnect, Log Notice, QueueClose 2, QMgrDisc 1, Log Trace, SubUnsubscribe 3])
   \<and> NATS2Queue_Shutdown all_succeed
        (started_NATS2Queue\<lparr>stats := AddDisconnect (stats started_NATS2Queue),
                             queue := None, qMgr := None, sub := None\<rparr>)
     = (None,
        started_NATS2Queue\<lparr>stats := AddDisconnect (AddDisconnect (stats started_NATS2Queue)),
                            queue := None, qMgr := None, sub := None\<rparr>,
        [StatsAddDisconnect, Log Notice])
   \<and> Queue2NATS_Shutdown all_succeed started_Queue2NATS
     = (None,
        started_Queue2NATS\<lparr>stats := AddDisconnect (stats started_Queue2NATS),
                            queue := None, qMgr := None, shutdownCB := None\<rparr>,
        [StatsAddDisconnect, Log Notice, ShutdownCallback 3, Log Notice, QueueClose 2,
         Log Notice, QMgrDisc 1, Log Trace])
   \<and> Queue2NATS_Shutdown all_succeed
        (started_Queue2NATS\<lparr>stats := AddDisconnect (stats started_Queue2NATS),
                             queue := None, qMgr := None, shutdownCB := None\<rparr>)
     = (None,
        started_Queue2NATS\<lparr>stats := AddDisconnect (AddDisconnect (stats started_Queue2NATS)),
                            queue := None, qMgr := None, shutdownCB := None\<rparr>,
        [StatsAddDisconnect, Log Notice])
   \<and> filter closes_queue
        [StatsAddDisconnect, Log Notice, QueueClose 2, QMgrDisc 1, Log Trace, SubUnsubscribe 3]
     = [QueueClose 2]
   \<and> filter handle_operation [StatsAddDisconnect, Log Notice] = []"
proof -
  let ?m1 = "started_NATS2Queue\<lparr>stats := AddDisconnect (stats started_NATS2Queue),
                            queue := None, qMgr := None, sub := None\<rparr>"
  let ?m2 = "started_NATS2Queue\<lparr>stats := AddDisconnect (AddDisconnect (stats started_NATS2Queue)),
                            queue := None, qMgr := None, sub := None\<rparr>"
  let ?c1 = "started_Queue2NATS\<lparr>stats := AddDisconnect (stats started_Queue2NATS),
                            queue := None, qMgr := None, shutdownCB := None\<rparr>"
  let ?c2 = "started_Queue2NATS\<lparr>stats := AddDisconnect (AddDisconnect (stats started_Queue2NATS)),
                            queue := None, qMgr := None, shutdownCB := None\<rparr>"
  have a: "NATS2Queue_Shutdown all_succeed started_NATS2Queue
     = (None, ?m1,
        [StatsAddDisconnect, Log Notice, QueueClose 2, QMgrDisc 1, Log Trace, SubUnsubscribe 3])"
    by (simp add: NATS2Queue_Shutdown_result started_NATS2Queue_def all_succeed_def)
  have b: "NATS2Queue_Shutdown all_succeed ?m1 = (None, ?m2, [StatsAddDisconnect, Log Notice])"
    by (simp add: NATS2Queue_Shutdown_result started_NATS2Queue_def all_succeed_def)
  have c: "Queue2NATS_Shutdown all_succeed started_Queue2NATS
     = (None, ?c1,
        [StatsAddDisconnect, Log Notice, ShutdownCallback 3, Log Notice, QueueClose 2,
         Log Notice, QMgrDisc 1, Log Trace])"
    by (simp add: Queue2NATS_Shutdown_result started_Queue2NATS_def all_succeed_def log_error_def)
  have d: "Queue2NATS_Shutdown all_succeed ?c1 = (None, ?c2, [StatsAddDisconnect, Log Notice])"
    by (simp add: Queue2NATS_Shutdown_result started_Queue2NATS_def all_succeed_def)
  from Shutdown_twice [OF a b c d] a b c d show ?thesis
    by (simp add: started_NATS2Queue_def)
qed

text \<open>
  Claim C7 as stated ("returns success both times") fails for NATS2Queue: the first
  \<^verbatim>\<open>Shutdown\<close> returns the error of \<^verbatim>\<open>queue.Close(0)\<close> when closing the queue fails.
\<close>

theorem Shutdown_close_error_counterexample:
  "fst (NATS2Queue_Shutdown close_fails started_NATS2Queue) = Some ''MQRC_CONNECTION_BROKEN''"
  by (simp add: NATS2Queue_Shutdown_result started_NATS2Queue_def close_fails_def)

text \<open>\<open>n\<close> \<^verbatim>\<open>Shutdown\<close> calls in succession, one list element per call.\<close>

fun NATS2Queue_Shutdowns ::
  "shutdown_results list \<Rightarrow> NATS2QueueConnector \<Rightarrow> NATS2QueueConnector \<times> event list" where
  "NATS2Queue_Shutdowns [] mq = (mq, [])"
| "NATS2Queue_Shutdowns (r # rs) mq =
     (let (e, mq1, tr) = NATS2Queue_Shutdown r mq;
          (mq2, tr') = NATS2Queue_Shutdowns rs mq1
      in (mq2, tr @ tr'))"

fun Queue2NATS_Shutdowns ::
  "shutdown_results list \<Rightarrow> Queue2NATSConnector \<Rightarrow> Queue2NATSConnector \<times> event list" where
  "Queue2NATS_Shutdowns [] mq = (mq, [])"
| "Queue2NATS_Shutdowns (r # rs) mq =
     (let (e, mq1, tr) = Queue2NATS_Shutdown r mq;
          (mq2, tr') = Queue2NATS_Shutdowns rs mq1
      in (mq2, tr @ tr'))"

lemma NATS2Queue_Shutdown_first:
  "\<exists>e mq' rest. NATS2Queue_Shutdown r mq = (e, mq', StatsAddDisconnect # rest)
     \<and> StatsAddDisconnect \<notin> set rest
     \<and> Disconnects (stats mq') = Disconnects (stats mq) + 1"
  by (cases "queue mq"; cases "qMgr mq"; cases "sub mq")
     (simp_all add: NATS2Queue_Shutdown_result AddDisconnect_def)

lemma Queue2NATS_Shutdown_first:
  "\<exists>e mq' rest. Queue2NATS_Shutdown r mq = (e, mq', StatsAddDisconnect # rest)
     \<and> StatsAddDisconnect \<notin> set rest
     \<and> Disconnects (stats mq') = Disconnects (stats mq) + 1"
  by (cases "queue mq"; cases "qMgr mq"; cases "shutdownCB mq")
     (simp_all add: Queue2NATS_Shutdown_result AddDisconnect_def)

lemma NATS2Queue_Shutdowns_count:
  "Disconnects (stats (fst (NATS2Queue_Shutdowns rs mq))) = Disconnects (stats mq) + int (length rs)
   \<and> length (filter (\<lambda>e. e = StatsAddDisconnect) (snd (NATS2Queue_Shutdowns rs mq))) = length rs"
proof (induction rs arbitrary: mq)
  case Nil
  show ?case by simp
next
  case (Cons r rs)
  from NATS2Queue_Shutdown_first [of r mq] obtain e mq' rest
    where s: "NATS2Queue_Shutdown r mq = (e, mq', StatsAddDisconnect # rest)"
      and n: "StatsAddDisconnect \<notin> set rest"
      and d: "Disconnects (stats mq') = Disconnects (stats mq) + 1" by blast
  from n have "filter (\<lambda>e. e = StatsAddDisconnect) rest = []"
    by (auto simp: filter_empty_conv)
  with Cons.IH [of mq'] s d show ?case
    by (simp add: split_beta Let_def)
qed

lemma Queue2NATS_Shutdowns_count:
  "Disconnects (stats (fst (Queue2NATS_Shutdowns rs mq))) = Disconnects (stats mq) + int (length rs)
   \<and> length (filter (\<lambda>e. e = StatsAddDisconnect) (snd (Queue2NATS_Shutdowns rs mq))) = length rs"
proof (induction rs arbitrary: mq)
  case Nil
  show ?case by simp
next
  case (Cons r rs)
  from Queue2NATS_Shutdown_first [of r mq] obtain e mq' rest
    where s: "Queue2NATS_Shutdown r mq = (e, mq', StatsAddDisconnect # rest)"
      and n: "StatsAddDisconnect \<notin> set rest"
      and d: "Disconnects (stats mq') = Disconnects (stats mq) + 1" by blast
  from n have "filter (\<lambda>e. e = StatsAddDisconnect) rest = []"
    by (auto simp: filter_empty_conv)
  with Cons.IH [of mq'] s d show ?case
    by (simp add: split_beta Let_def)
qed

text \<open>
  Claim C10. Every \<^verbatim>\<open>Shutdown\<close> call of a NATS2Queue or Queue2NATS connector, in any
  state of the connector (never started, started, already shut down) and whatever the
  outside calls return, calls \<^verbatim>\<open>stats.AddDisconnect()\<close> once, as its first effect and so
  before any handle is closed, and the disconnect count goes up by one; \<open>n\<close> calls in
  succession raise the disconnect count by \<open>n\<close> and make \<open>n\<close> such calls.
\<close>

theorem Shutdown_counts_disconnects:
  "(\<exists>e mq' rest. NATS2Queue_Shutdown r mq = (e, mq', StatsAddDisconnect # rest)
       \<and> StatsAddDisconnect \<notin> set rest
       \<and> Disconnects (stats mq') = Disconnects (stats mq) + 1)
   \<and> (\<exists>e c' rest. Queue2NATS_Shutdown r c = (e, c', StatsAddDisconnect # rest)
       \<and> StatsAddDisconnect \<notin> set rest
       \<and> Disconnects (stats c') = Disconnects (stats c) + 1)
   \<and> Disconnects (stats (fst (NATS2Queue_Shutdowns rs mq)))
       = Disconnects (stats mq) + int (length rs)
   \<and> length (filter (\<lambda>e. e = StatsAddDisconnect) (snd (NATS2Queue_Shutdowns rs mq))) = length rs
   \<and> Disconnects (stats (fst (Queue2NATS_Shutdowns rs c)))
       = Disconnects (stats c) + int (length rs)
   \<and> length (filter (\<lambda>e. e = StatsAddDisconnect) (snd (Queue2NATS_Shutdowns rs c))) = length rs"
  using NATS2Queue_Shutdown_first [of r mq] Queue2NATS_Shutdown_first [of r c]
    NATS2Queue_Shutdowns_count [of rs mq] Queue2NATS_Shutdowns_count [of rs c]
  by simp

lemma never_started_Shutdowns:
  "Disconnects (stats (fst (NATS2Queue_Shutdowns [all_succeed, all_succeed, all_succeed]
      (NewNATS2QueueConnector test_config)))) = 3"
  by (simp add: NATS2Queue_Shutdown_result NewNATS2QueueConnector_def NewConnectorStats_def
      AddDisconnect_def)

subsection \<open>Start and the message handlers\<close>






datatype mqcc = MQCC_OK | MQCC_WARNING | MQCC_FAILED
datatype mqrc = MQRC_NONE | MQRC_NO_MSG_AVAILABLE | MQRC_OTHER nat

record MQReturn =
  MQCC :: mqcc
  MQRC :: mqrc

text \<open>
  What the outside calls of a message handler return: the converted message and the
  error of \<^verbatim>\<open>MQToNATSMessage\<close> or \<^verbatim>\<open>NATSToMQMessage\<close>, the error of the STAN publish
  and the error of the MQ put.
\<close>

record handler_results =
  convert_result :: "bytes \<times> error option"
  Publish_result :: "error option"
  Put_result :: "error option"

text \<open>
  \<^verbatim>\<open>Queue2STANConnector.messageHandler\<close>. After a conversion error the handler logs
  and goes on: there is no return between the log call and the publish.
\<close>

definition Queue2STAN_messageHandler ::
  "handler_results \<Rightarrow> Queue2STANConnector \<Rightarrow> bytes \<Rightarrow> MQReturn option
     \<Rightarrow> panic + Queue2STANConnector \<times> event list" where
  "Queue2STAN_messageHandler r mq buffer mqErr =
     (if mqErr \<noteq> None \<and> MQCC (the mqErr) \<noteq> MQCC_OK then
        (if MQRC (the mqErr) = MQRC_NO_MSG_AVAILABLE then Inr (mq, [Log Trace])
         else Inr (mq, [BridgeConnectorError]))
      else
        (let bufferLen = int (length buffer);
             tr = [Log Trace];
             qmgrFlag = (if ExcludeHeaders (config mq) then None else qMgr mq);
             mq1 = mq\<lparr>stats := AddMessageIn bufferLen (stats mq)\<rparr>;
             (natsMsg, err) = convert_result r;
             tr1 = tr @ [StatsAddMessageIn bufferLen, MQToNATSMessage (qmgrFlag \<noteq> None)]
                      @ log_error err;
             tr2 = tr1 @ [StanPublish (Channel (config mq)) natsMsg] in
         case Publish_result r of
           Some err' \<Rightarrow>
             (case qMgr mq1 of
                None \<Rightarrow> Inl NilDereference
              | Some m \<Rightarrow> Inr (mq1, tr2 @ [Log Notice, QMgrBack]))
         | None \<Rightarrow>
             (case qMgr mq1 of
                None \<Rightarrow> Inl NilDereference
              | Some m \<Rightarrow>
                  Inr (mq1\<lparr>stats := AddMessageOut (int (length natsMsg)) (stats mq1)\<rparr>,
                       tr2 @ [QMgrCmit, StatsAddMessageOut (int (length natsMsg)),
                              StatsAddRequestTime]))))"

text \<open>
  \<^verbatim>\<open>NATS2QueueConnector.messageHandler\<close>. The error of \<^verbatim>\<open>NATSToMQMessage\<close> is assigned
  to \<^verbatim>\<open>err\<close> and overwritten by the result of \<^verbatim>\<open>Put\<close> before anything reads it.
\<close>

definition NATS2Queue_messageHandler ::
  "handler_results \<Rightarrow> NATS2QueueConnector \<Rightarrow> bytes
     \<Rightarrow> panic + NATS2QueueConnector \<times> event list" where
  "NATS2Queue_messageHandler r mq data =
     (let qmgrFlag = (if ExcludeHeaders (config mq) then None else qMgr mq);
          mq1 = mq\<lparr>stats := AddMessageIn (int (length data)) (stats mq)\<rparr>;
          (buffer, err) = convert_result r;
          tr = [StatsAddMessageIn (int (length data)), NATSToMQMessage (qmgrFlag \<noteq> None)];
          pmoOptions = {MQPMO_NO_SYNCPOINT} in
      case queue mq1 of
        None \<Rightarrow> Inl NilDereference
      | Some q \<Rightarrow>
          (case Put_result r of
             Some err' \<Rightarrow> Inr (mq1, tr @ [QueuePut pmoOptions buffer, Log Notice])
           | None \<Rightarrow>
               Inr (mq1\<lparr>stats := AddMessageOut (int (length buffer)) (stats mq1)\<rparr>,
                    tr @ [QueuePut pmoOptions buffer, StatsAddMessageOut (int (length buffer)),
                          StatsAddRequestTime])))"

fun commits_or_backs_out :: "event \<Rightarrow> bool" where
  "commits_or_backs_out QMgrCmit = True"
| "commits_or_backs_out QMgrBack = True"
| "commits_or_backs_out e = False"


lemma no_commit_log_error [simp]: "filter commits_or_backs_out (log_error e) = []"
  by (simp add: log_error_def split: option.splits)







lemma StanPublish_in_log_error [simp]: "StanPublish ch msg \<notin> set (log_error err)"
  by (simp add: log_error_def split: option.splits)








definition started_Queue2STAN :: Queue2STANConnector where
  "started_Queue2STAN =
     \<lparr>config = test_config, qMgr = Some 1, queue = Some 2,
      stats = AddConnect NewConnectorStats, ctlo = Some 0\<rparr>"



definition convert_fails :: handler_results where
  "convert_fails = \<lparr>convert_result = ([], Some ''unsupported property type''),
                     Publish_result = None, Put_result = None\<rparr>"


text \<open>
  Claim C3 at the input where the code fails: a message whose conversion fails while the
  publish (or the put) succeeds. The Queue2STAN handler logs the conversion error at
  notice level and then publishes what the conversion returned and commits; the
  NATS2Queue handler puts the message without logging the conversion error.
\<close>

theorem conversion_failure_is_forwarded:
  "Queue2STAN_messageHandler convert_fails started_Queue2STAN [104, 105] None
     = Inr (started_Queue2STAN\<lparr>stats := AddMessageOut 0 (AddMessageIn 2 (stats started_Queue2STAN))\<rparr>,
            [Log Trace, StatsAddMessageIn 2, MQToNATSMessage True, Log Notice,
             StanPublish ''test'' [], QMgrCmit, StatsAddMessageOut 0, StatsAddRequestTime])
   \<and> NATS2Queue_messageHandler convert_fails started_NATS2Queue [104, 105]
     = Inr (started_NATS2Queue\<lparr>stats := AddMessageOut 0 (AddMessageIn 2 (stats started_NATS2Queue))\<rparr>,
            [StatsAddMessageIn 2, NATSToMQMessage True, QueuePut {MQPMO_NO_SYNCPOINT} [],
             StatsAddMessageOut 0, StatsAddRequestTime])"
  by (simp add: Queue2STAN_messageHandler_def NATS2Queue_messageHandler_def convert_fails_def
      started_Queue2STAN_def started_NATS2Queue_def test_config_def Let_def log_error_def)

section \<open>The bridge envelope codec (package message)\<close>

datatype decode_error =
    TooShort | Truncated | UnknownTypeTag | DuplicateKey | EmptyKey | TrailingBytes

definition bind_result :: "'e + 'a \<Rightarrow> ('a \<Rightarrow> 'e + 'b) \<Rightarrow> 'e + 'b" where
  "bind_result m f = (case m of Inl e \<Rightarrow> Inl e | Inr a \<Rightarrow> f a)"

subsection \<open>Lengths, byte strings and fixed-width numbers\<close>


fun dec_nat :: "bytes \<Rightarrow> (nat \<times> bytes) option" where
  "dec_nat [] = None"
| "dec_nat (b # bs) =
     (if unat b < 128 then Some (unat b, bs)
      else (case dec_nat bs of
              None \<Rightarrow> None
            | Some (m, rest) \<Rightarrow> Some (unat b - 128 + 128 * m, rest)))"




lemma dec_nat_shorter: "dec_nat bs = Some (n, rest) \<Longrightarrow> length rest < length bs"
proof (induction bs arbitrary: n rest)
  case Nil
  then show ?case by simp
next
  case (Cons b bs)
  then show ?case
    by (fastforce split: if_splits option.splits)
qed

definition take_exact :: "nat \<Rightarrow> bytes \<Rightarrow> decode_error + bytes \<times> bytes" where
  "take_exact n bs = (if length bs < n then Inl Truncated else Inr (take n bs, drop n bs))"


definition dec_bytes :: "bytes \<Rightarrow> decode_error + bytes \<times> bytes" where
  "dec_bytes bs = (case dec_nat bs of
                     None \<Rightarrow> Inl Truncated
                   | Some (n, rest) \<Rightarrow> take_exact n rest)"


lemma dec_bytes_shorter: "dec_bytes bs = Inr (xs, rest) \<Longrightarrow> length rest < length bs"
  by (auto simp: dec_bytes_def take_exact_def split: option.splits if_splits
      dest!: dec_nat_shorter)

definition byte_of_char :: "char \<Rightarrow> byte" where
  "byte_of_char c = of_nat (of_char c)"

definition char_of_byte :: "byte \<Rightarrow> char" where
  "char_of_byte b = char_of (unat b)"



definition dec_string :: "bytes \<Rightarrow> decode_error + string \<times> bytes" where
  "dec_string bs = bind_result (dec_bytes bs) (\<lambda>(xs, rest). Inr (map char_of_byte xs, rest))"



definition be_nat :: "bytes \<Rightarrow> nat" where
  "be_nat bs = foldl (\<lambda>a b. a * 256 + unat b) 0 bs"




definition dec_word :: "bytes \<Rightarrow> decode_error + 'a::len word \<times> bytes" where
  "dec_word bs =
     bind_result (take_exact (LENGTH('a) div 8) bs) (\<lambda>(xs, rest). Inr (of_nat (be_nat xs), rest))"


subsection \<open>Typed properties\<close>

text \<open>
  The ten property types. A \<^verbatim>\<open>float32\<close> or \<^verbatim>\<open>float64\<close> value is carried as its IEEE-754
  bit pattern: the codec moves the bits and never computes with them.
\<close>

datatype property =
    PNull
  | PBool bool
  | PInt8 "8 word"
  | PInt16 "16 word"
  | PInt32 "32 word"
  | PInt64 "64 word"
  | PFloat32 "32 word"
  | PFloat64 "64 word"
  | PString string
  | PBytes bytes



definition dec_value :: "byte \<Rightarrow> bytes \<Rightarrow> decode_error + property \<times> bytes" where
  "dec_value tag bs =
     (if tag = 0 then Inr (PNull, bs)
      else if tag = 1 then
        (case bs of [] \<Rightarrow> Inl Truncated | b # rest \<Rightarrow> Inr (PBool (b \<noteq> 0), rest))
      else if tag = 2 then bind_result (dec_word bs) (\<lambda>(w, rest). Inr (PInt8 w, rest))
      else if tag = 3 then bind_result (dec_word bs) (\<lambda>(w, rest). Inr (PInt16 w, rest))
      else if tag = 4 then bind_result (dec_word bs) (\<lambda>(w, rest). Inr (PInt32 w, rest))
      else if tag = 5 then bind_result (dec_word bs) (\<lambda>(w, rest). Inr (PInt64 w, rest))
      else if tag = 6 then bind_result (dec_word bs) (\<lambda>(w, rest). Inr (PFloat32 w, rest))
      else if tag = 7 then bind_result (dec_word bs) (\<lambda>(w, rest). Inr (PFloat64 w, rest))
      else if tag = 8 then bind_result (dec_string bs) (\<lambda>(s, rest). Inr (PString s, rest))
      else if tag = 9 then bind_result (dec_bytes bs) (\<lambda>(xs, rest). Inr (PBytes xs, rest))
      else Inl UnknownTypeTag)"


definition dec_property :: "bytes \<Rightarrow> decode_error + (string \<times> property) \<times> bytes" where
  "dec_property bs =
     bind_result (dec_string bs) (\<lambda>(key, rest).
       if key = [] then Inl EmptyKey
       else (case rest of
               [] \<Rightarrow> Inl Truncated
             | tag # rest' \<Rightarrow>
                 bind_result (dec_value tag rest') (\<lambda>(v, rest''). Inr ((key, v), rest''))))"



lemma take_exact_shorter: "take_exact n bs = Inr (xs, rest) \<Longrightarrow> length rest \<le> length bs"
  by (auto simp: take_exact_def split: if_splits)

lemma dec_word_shorter: "dec_word bs = Inr (w, rest) \<Longrightarrow> length rest \<le> length bs"
  by (auto simp: dec_word_def bind_result_def split: sum.splits dest: take_exact_shorter)

lemma dec_string_shorter: "dec_string bs = Inr (s, rest) \<Longrightarrow> length rest < length bs"
  by (auto simp: dec_string_def bind_result_def split: sum.splits dest: dec_bytes_shorter)

lemma dec_value_shorter: "dec_value tag bs = Inr (v, rest) \<Longrightarrow> length rest \<le> length bs"
  unfolding dec_value_def
  by (auto simp: bind_result_def split: if_splits sum.splits list.splits
      dest: dec_word_shorter dec_string_shorter dec_bytes_shorter)

lemma dec_property_shorter: "dec_property bs = Inr (p, rest) \<Longrightarrow> length rest < length bs"
  unfolding dec_property_def
  by (auto simp: bind_result_def split: if_splits sum.splits list.splits
      dest!: dec_value_shorter dec_string_shorter)

text \<open>
  The properties section: properties one after the other up to the end of the section.
  A key that was already read is a decode error.
\<close>

function dec_properties ::
  "(string \<times> property) list \<Rightarrow> bytes \<Rightarrow> decode_error + (string \<times> property) list" where
  "dec_properties acc bs =
     (if bs = [] then Inr (rev acc)
      else (case dec_property bs of
              Inl e \<Rightarrow> Inl e
            | Inr (p, rest) \<Rightarrow>
                if fst p \<in> fst ` set acc then Inl DuplicateKey
                else dec_properties (p # acc) rest))"
  by pat_completeness auto
termination
  by (relation "measure (\<lambda>(acc, bs). length bs)") (auto dest: dec_property_shorter)

declare dec_properties.simps [simp del]



subsection \<open>The header and the message\<close>

text \<open>
  The header mirrors the MQ message descriptor: fifteen integer fields (32 bits each in
  the MQ descriptor), nine character fields and four identifier fields.
\<close>

record BridgeHeader =
  Version :: "32 word"
  Report :: "32 word"
  MsgType :: "32 word"
  Expiry :: "32 word"
  Feedback :: "32 word"
  Encoding :: "32 word"
  CodedCharSetId :: "32 word"
  Format :: string
  Priority :: "32 word"
  Persistence :: "32 word"
  MsgID :: bytes
  CorrelID :: bytes
  BackoutCount :: "32 word"
  ReplyToQ :: string
  ReplyToQMgr :: string
  UserIdentifier :: string
  AccountingToken :: bytes
  ApplIdentityData :: string
  PutApplType :: "32 word"
  PutApplName :: string
  PutDate :: string
  PutTime :: string
  ApplOriginData :: string
  GroupID :: bytes
  MsgSeqNumber :: "32 word"
  Offset :: "32 word"
  MsgFlags :: "32 word"
  OriginalLength :: "32 word"

text \<open>
  The Go map of properties is an association list with distinct keys; its order is the
  order in which \<^verbatim>\<open>Encode\<close> walks the map.
\<close>

record BridgeMessage =
  Header :: BridgeHeader
  Properties :: "(string \<times> property) list"
  Body :: bytes




definition make_header :: "32 word list \<Rightarrow> string list \<Rightarrow> bytes list \<Rightarrow> BridgeHeader" where
  "make_header is ss ids =
     \<lparr>Version = is ! 0, Report = is ! 1, MsgType = is ! 2, Expiry = is ! 3, Feedback = is ! 4,
      Encoding = is ! 5, CodedCharSetId = is ! 6, Format = ss ! 0, Priority = is ! 7,
      Persistence = is ! 8, MsgID = ids ! 0, CorrelID = ids ! 1, BackoutCount = is ! 9,
      ReplyToQ = ss ! 1, ReplyToQMgr = ss ! 2, UserIdentifier = ss ! 3,
      AccountingToken = ids ! 2, ApplIdentityData = ss ! 4, PutApplType = is ! 10,
      PutApplName = ss ! 5, PutDate = ss ! 6, PutTime = ss ! 7, ApplOriginData = ss ! 8,
      GroupID = ids ! 3, MsgSeqNumber = is ! 11, Offset = is ! 12, MsgFlags = is ! 13,
      OriginalLength = is ! 14\<rparr>"


text \<open>\<open>n\<close> items of one kind, one after the other.\<close>

fun dec_many ::
  "(bytes \<Rightarrow> decode_error + 'a \<times> bytes) \<Rightarrow> nat \<Rightarrow> bytes \<Rightarrow> decode_error + 'a list \<times> bytes" where
  "dec_many dec 0 bs = Inr ([], bs)"
| "dec_many dec (Suc n) bs =
     bind_result (dec bs) (\<lambda>(x, rest).
       bind_result (dec_many dec n rest) (\<lambda>(xs, rest'). Inr (x # xs, rest')))"



definition dec_header :: "bytes \<Rightarrow> decode_error + BridgeHeader \<times> bytes" where
  "dec_header bs =
     bind_result (dec_many dec_word 15 bs) (\<lambda>(is, r1).
       bind_result (dec_many dec_string 9 r1) (\<lambda>(ss, r2).
         bind_result (dec_many dec_bytes 4 r2) (\<lambda>(ids, r3).
           Inr (make_header is ss ids, r3))))"



definition DecodeBridgeMessage :: "bytes \<Rightarrow> decode_error + BridgeMessage" where
  "DecodeBridgeMessage encoded =
     (if length encoded < 3 then Inl TooShort
      else
        bind_result (dec_bytes encoded) (\<lambda>(hs, r1).
          bind_result (dec_header hs) (\<lambda>(h, hrest).
            if hrest \<noteq> [] then Inl TrailingBytes
            else
              bind_result (dec_bytes r1) (\<lambda>(ps, r2).
                bind_result (dec_properties [] ps) (\<lambda>props.
                  bind_result (dec_bytes r2) (\<lambda>(body, r3).
                    if r3 \<noteq> [] then Inl TrailingBytes
                    else Inr \<lparr>Header = h, Properties = props, Body = body\<rparr>))))))"





subsection \<open>Decoding an encoded message\<close>



definition hello_world :: bytes where
  "hello_world = map byte_of_char ''hello world''"




lemma decode_hello_world_fails: "DecodeBridgeMessage hello_world = Inl Truncated"
  by (simp add: DecodeBridgeMessage_def hello_world_def byte_of_char_def dec_bytes_def
      take_exact_def bind_result_def)

end
